theory Spec2Isabelle
  imports
    Complex_Main
    "HOL-Library.AList"
    "HOL-Library.Char_ord"
    "HOL-Library.List_Lexorder"
    "HOL-Library.Product_Lexorder"
begin

section \<open>Task scheduling and execution engine (base_classes.py)\<close>

text \<open>
  A shallow embedding of \<^verbatim>\<open>BaseTask\<close> and \<^verbatim>\<open>TaskScheduler\<close>.

  Conventions of the model:
  \<^item> a \<^verbatim>\<open>datetime\<close> is the number of microseconds since \<^verbatim>\<open>datetime.min\<close>, a natural
    number, so that \<^verbatim>\<open>datetime.min\<close> is \<open>0\<close>; the values of \<^verbatim>\<open>datetime.now()\<close> and
    \<^verbatim>\<open>time.time()\<close> are parameters of the functions that read the clock;
  \<^item> a Python \<^verbatim>\<open>float\<close> is a \<open>real\<close> (rounding is not modelled);
  \<^item> a \<^verbatim>\<open>dict\<close> is an association list in insertion order (\<open>AList.update\<close> replaces
    in place or appends, as a Python dict does);
  \<^item> \<^verbatim>\<open>threading.Lock\<close> is not reentrant: it is a boolean of the task, and acquiring it
    while it is held blocks forever. A call that never returns has the value \<open>None\<close>;
  \<^item> observer callbacks are pure observers: a registered callback appends an event to the
    task's trace, and changes nothing else.
\<close>

subsection \<open>Enumerations and TaskResult\<close>

datatype TaskStatus = PENDING | RUNNING | COMPLETED | FAILED | TIMEOUT | CANCELLED | PAUSED

datatype TaskPriority = LOW | NORMAL | HIGH | CRITICAL


fun priority_value :: "TaskPriority \<Rightarrow> nat" where
  "priority_value LOW = 1"
| "priority_value NORMAL = 2"
| "priority_value HIGH = 3"
| "priority_value CRITICAL = 4"

type_synonym datetime = nat

type_synonym pydict = "(string \<times> string) list"

text \<open>The fields of \<^verbatim>\<open>TaskResult\<close> carry the prefix \<open>r_\<close>: a task has fields of the same names.\<close>

record TaskResult =
  r_task_id :: string
  r_status :: TaskStatus
  r_data :: pydict
  r_error :: "string option"
  r_execution_time :: real
  r_start_time :: "datetime option"
  r_end_time :: "datetime option"
  r_progress :: real
  r_metadata :: pydict

subsection \<open>BaseTask\<close>

datatype event = StatusChanged TaskStatus | ProgressChanged real | TaskCompleted TaskResult

record BaseTask =
  task_id :: string
  name :: string
  description :: string
  priority :: TaskPriority
  timeout :: int
  retry_count :: int
  dependencies :: "string list"
  status :: TaskStatus
  progress :: real
  start_time :: "datetime option"
  end_time :: "datetime option"
  execution_time :: real
  error :: "string option"
  result_data :: pydict
  metadata :: pydict
  cancelled :: bool
  paused :: bool
  lock_held :: bool
  on_progress :: bool
  on_status_change :: bool
  on_complete :: bool
  trace :: "event list"

text \<open>\<^verbatim>\<open>with self._lock\<close>: entering blocks forever when the lock is held.\<close>

definition acquire :: "BaseTask \<Rightarrow> BaseTask option" where
  "acquire t = (if lock_held t then None else Some (t\<lparr>lock_held := True\<rparr>))"

definition release :: "BaseTask \<Rightarrow> BaseTask" where
  "release t = t\<lparr>lock_held := False\<rparr>"

definition notify_status_change :: "TaskStatus \<Rightarrow> BaseTask \<Rightarrow> BaseTask" where
  "notify_status_change st t =
     (if on_status_change t then t\<lparr>trace := trace t @ [StatusChanged st]\<rparr> else t)"

text \<open>\<^verbatim>\<open>_set_status\<close> takes the lock itself; \<^verbatim>\<open>if error:\<close> is false for \<^verbatim>\<open>None\<close> and for \<^verbatim>\<open>""\<close>.\<close>

definition set_status :: "TaskStatus \<Rightarrow> string option \<Rightarrow> BaseTask \<Rightarrow> BaseTask option" where
  "set_status st err t =
     (case acquire t of
        None \<Rightarrow> None
      | Some t1 \<Rightarrow>
          let t2 = t1\<lparr>status := st\<rparr>;
              t3 = (case err of
                      None \<Rightarrow> t2
                    | Some e \<Rightarrow> if e \<noteq> [] then t2\<lparr>error := Some e\<rparr> else t2)
          in Some (notify_status_change st (release t3)))"

definition create_result :: "BaseTask \<Rightarrow> TaskResult" where
  "create_result t =
     \<lparr> r_task_id = task_id t, r_status = status t, r_data = result_data t,
       r_error = error t, r_execution_time = execution_time t,
       r_start_time = start_time t, r_end_time = end_time t,
       r_progress = progress t, r_metadata = metadata t \<rparr>"

subsection \<open>The execution guard\<close>

text \<open>
  What \<^verbatim>\<open>execute()\<close> does on its own thread, and what other threads do meanwhile, is the
  environment of \<^verbatim>\<open>run()\<close>. Time is counted in polls of the supervisor (one every 100 ms):
  \<^item> \<open>finishes_at\<close>: the poll from which \<^verbatim>\<open>thread.is_alive()\<close> is false (\<open>None\<close>: never);
  \<^item> \<open>outcome\<close>: what the thread left behind: a returned value (\<open>None\<close> is Python's
    \<^verbatim>\<open>None\<close>), an exception put on the exception queue, or nothing at all;
  \<^item> \<open>cancel_at\<close>: the poll from which the cancellation flag is seen set by a \<^verbatim>\<open>cancel()\<close>
    of another thread (\<open>None\<close>: nobody cancels).
\<close>

datatype exn = TimeoutError string | OtherError string

fun exn_str :: "exn \<Rightarrow> string" where
  "exn_str (TimeoutError m) = m"
| "exn_str (OtherError m) = m"

datatype work_outcome = Returns "pydict option" | Raises exn | Dies

record work =
  finishes_at :: "nat option"
  outcome :: work_outcome
  cancel_at :: "nat option"

definition is_alive :: "work \<Rightarrow> nat \<Rightarrow> bool" where
  "is_alive w k = (case finishes_at w of None \<Rightarrow> True | Some f \<Rightarrow> k < f)"

definition is_set :: "BaseTask \<Rightarrow> work \<Rightarrow> nat \<Rightarrow> bool" where
  "is_set t w k = (cancelled t \<or> (case cancel_at w of None \<Rightarrow> False | Some c \<Rightarrow> c \<le> k))"

definition observe :: "BaseTask \<Rightarrow> work \<Rightarrow> nat \<Rightarrow> BaseTask" where
  "observe t w k = t\<lparr>cancelled := is_set t w k\<rparr>"

text \<open>
  The polling loop of \<^verbatim>\<open>_execute_with_timeout\<close>; \<open>k\<close> polls have been slept, the elapsed
  time is \<open>k / 10\<close> seconds. The result is the value returned from inside the loop, if any,
  and the poll at which the loop was left. The elapsed time is the exact sum of the tenths;
  the code adds the float \<^verbatim>\<open>0.1\<close>, whose rounded sum can fall just short of a timeout that
  the exact sum reaches, and the loop then sleeps one poll more.
\<close>

function guard_loop :: "BaseTask \<Rightarrow> work \<Rightarrow> nat \<Rightarrow> pydict option \<times> nat" where
  "guard_loop t w k =
     (if is_alive w k \<and> int k < 10 * timeout t
      then (if is_set t w k then (Some [], k) else guard_loop t w (Suc k))
      else (None, k))"
  by pat_completeness auto
termination
  by (relation "measure (\<lambda>(t, w, k). nat (10 * timeout t) - k)") auto

declare guard_loop.simps [simp del]

text \<open>The decimal text of an integer, as an f-string renders it.\<close>

fun str_nat :: "nat \<Rightarrow> string" where
  "str_nat n =
     (if n < 10 then [char_of (48 + n)] else str_nat (n div 10) @ [char_of (48 + n mod 10)])"

declare str_nat.simps [simp del]

definition str_int :: "int \<Rightarrow> string" where
  "str_int i = (if i < 0 then CHR ''-'' # str_nat (nat (- i)) else str_nat (nat i))"

definition execute_with_timeout :: "BaseTask \<Rightarrow> work \<Rightarrow> (exn + pydict option) \<times> nat" where
  "execute_with_timeout t w =
     (case guard_loop t w 0 of
        (Some d, k) \<Rightarrow> (Inr (Some d), k)
      | (None, k) \<Rightarrow>
          if is_alive w k
          then (Inl (TimeoutError (''Tarea excedi'' @ [CHR 0xF3] @ '' timeout de ''
                                     @ str_int (timeout t) @ ''s'')), k)
          else (case outcome w of
                  Raises e \<Rightarrow> (Inl e, k)
                | Returns d \<Rightarrow> (Inr d, k)
                | Dies \<Rightarrow> (Inr (Some []), k)))"

subsection \<open>run()\<close>

definition timeout_msg :: string where
  "timeout_msg = ''Tiempo de ejecuci'' @ [CHR 0xF3] @ ''n excedido''"

definition error_msg :: "BaseTask \<Rightarrow> exn \<Rightarrow> string" where
  "error_msg t e = ''Error en tarea '' @ name t @ '': '' @ exn_str e"

definition notify_complete :: "TaskResult \<Rightarrow> BaseTask \<Rightarrow> BaseTask" where
  "notify_complete r t =
     (if on_complete t then t\<lparr>trace := trace t @ [TaskCompleted r]\<rparr> else t)"

text \<open>
  The \<^verbatim>\<open>try\<close> block of \<^verbatim>\<open>run()\<close> with its two \<^verbatim>\<open>except\<close> clauses. The first component
  of the result is the value of a \<^verbatim>\<open>return\<close> executed inside the block, which is computed
  before the \<^verbatim>\<open>finally\<close> clause runs.
\<close>

definition run_try :: "BaseTask \<Rightarrow> work \<Rightarrow> (TaskResult option \<times> BaseTask) option" where
  "run_try t w =
     (if is_set t w 0 then
        map_option (\<lambda>t'. (Some (create_result t'), t'))
          (set_status CANCELLED None (observe t w 0))
      else
        (case execute_with_timeout t w of
           (Inl (TimeoutError m), k) \<Rightarrow>
             map_option (Pair None) (set_status TIMEOUT (Some timeout_msg) t)
         | (Inl (OtherError m), k) \<Rightarrow>
             map_option (Pair None) (set_status FAILED (Some (error_msg t (OtherError m))) t)
         | (Inr returned, k) \<Rightarrow>
             if is_set t w k then
               map_option (\<lambda>t'. (Some (create_result t'), t'))
                 (set_status CANCELLED None (observe t w k))
             else
               (case acquire t of
                  None \<Rightarrow> None
                | Some t1 \<Rightarrow>
                    map_option (\<lambda>t2. (None, release t2))
                      (set_status COMPLETED None
                         (t1\<lparr>result_data := (case returned of None \<Rightarrow> [] | Some d \<Rightarrow> d),
                             progress := 100\<rparr>)))))"

definition stamp_end :: "datetime \<Rightarrow> BaseTask \<Rightarrow> BaseTask" where
  "stamp_end now t =
     (let t1 = t\<lparr>end_time := Some now\<rparr>
      in case start_time t1 of
           None \<Rightarrow> t1
         | Some s \<Rightarrow> t1\<lparr>execution_time := real_of_int (int now - int s) / 1000000\<rparr>)"

text \<open>\<open>now0\<close> and \<open>now1\<close> are the two readings of \<^verbatim>\<open>datetime.now()\<close>.\<close>

definition run :: "BaseTask \<Rightarrow> work \<Rightarrow> datetime \<Rightarrow> datetime \<Rightarrow> (TaskResult \<times> BaseTask) option" where
  "run t w now0 now1 =
     (case acquire t of
        None \<Rightarrow> None
      | Some t1 \<Rightarrow>
          if status t1 \<noteq> PENDING then Some (create_result t1, release t1)
          else
            let t2 = release (t1\<lparr>status := RUNNING, start_time := Some now0, progress := 0\<rparr>);
                t3 = notify_status_change RUNNING t2
            in (case run_try t3 w of
                  None \<Rightarrow> None
                | Some (early, t4) \<Rightarrow>
                    (case acquire t4 of
                       None \<Rightarrow> None
                     | Some t5 \<Rightarrow>
                         let t6 = release (stamp_end now1 t5)
                         in (case early of
                               Some r \<Rightarrow> Some (r, t6)
                             | None \<Rightarrow>
                                 let r = create_result t6
                                 in Some (r, notify_complete r t6)))))"

subsection \<open>cancel, pause, resume\<close>

definition cancel :: "BaseTask \<Rightarrow> BaseTask option" where
  "cancel t =
     (case acquire t of
        None \<Rightarrow> None
      | Some t1 \<Rightarrow>
          if status t1 = RUNNING then Some (release (t1\<lparr>cancelled := True\<rparr>))
          else if status t1 = PENDING then map_option release (set_status CANCELLED None t1)
          else Some (release t1))"

text \<open>
  The task as \<^verbatim>\<open>cancel()\<close> leaves it for the other threads, whether the call returns or
  blocks. A call that blocks on entering \<^verbatim>\<open>with self._lock\<close> has changed nothing so far;
  one that blocks inside \<^verbatim>\<open>_set_status\<close> has taken the lock and nothing else, since
  \<^verbatim>\<open>_set_status\<close> writes only after it has the lock.
\<close>

definition cancel_state :: "BaseTask \<Rightarrow> BaseTask" where
  "cancel_state t =
     (case acquire t of
        None \<Rightarrow> t
      | Some t1 \<Rightarrow>
          if status t1 = RUNNING then release (t1\<lparr>cancelled := True\<rparr>)
          else if status t1 = PENDING then
            (case set_status CANCELLED None t1 of None \<Rightarrow> t1 | Some t2 \<Rightarrow> release t2)
          else release t1)"

definition pause :: "BaseTask \<Rightarrow> BaseTask option" where
  "pause t =
     (case acquire t of
        None \<Rightarrow> None
      | Some t1 \<Rightarrow>
          if status t1 = RUNNING then map_option release (set_status PAUSED None (t1\<lparr>paused := True\<rparr>))
          else Some (release t1))"

definition resume :: "BaseTask \<Rightarrow> BaseTask option" where
  "resume t =
     (case acquire t of
        None \<Rightarrow> None
      | Some t1 \<Rightarrow>
          if status t1 = PAUSED then map_option release (set_status RUNNING None (t1\<lparr>paused := False\<rparr>))
          else Some (release t1))"

text \<open>A task as its constructor leaves it.\<close>

definition new_task :: "string \<Rightarrow> string \<Rightarrow> TaskPriority \<Rightarrow> int \<Rightarrow> string list \<Rightarrow> BaseTask" where
  "new_task tid nm pr tmo deps =
     \<lparr> task_id = tid, name = nm, description = [], priority = pr, timeout = tmo,
       retry_count = 0, dependencies = deps, status = PENDING, progress = 0,
       start_time = None, end_time = None, execution_time = 0, error = None,
       result_data = [], metadata = [], cancelled = False, paused = False,
       lock_held = False, on_progress = False, on_status_change = False,
       on_complete = False, trace = [] \<rparr>"


section \<open>TaskScheduler\<close>

subsection \<open>State\<close>

text \<open>
  The state of a \<^verbatim>\<open>concurrent.futures.Future\<close>: \<^verbatim>\<open>cancel()\<close> succeeds on a future that
  has not started (or is cancelled already) and fails on a running or finished one.
\<close>

datatype future_state = FPending | FRunning | FFinished | FCancelled

fun future_cancel :: "future_state \<Rightarrow> bool" where
  "future_cancel FPending = True"
| "future_cancel FCancelled = True"
| "future_cancel FRunning = False"
| "future_cancel FFinished = False"

text \<open>A queue entry is the tuple \<^verbatim>\<open>(priority_value, timestamp, task_id)\<close>; tuples and
  strings are ordered lexicographically, as in Python.\<close>

type_synonym entry = "nat \<times> real \<times> string"

text \<open>The dictionary \<^verbatim>\<open>stats\<close>; its key \<^verbatim>\<open>'completed_tasks'\<close> is the field
  \<open>stat_completed_tasks\<close>, the scheduler having a field \<open>completed_tasks\<close> of its own.\<close>

record scheduler_stats =
  total_tasks :: nat
  stat_completed_tasks :: nat
  failed_tasks :: nat
  cancelled_tasks :: nat
  average_execution_time :: real

text \<open>
  \<open>submitted\<close> is the list of the task ids handed to \<^verbatim>\<open>executor.submit\<close>, in order;
  \<open>executor_shutdown\<close> holds once \<^verbatim>\<open>executor.shutdown\<close> has been called, after which
  \<^verbatim>\<open>submit\<close> raises. The scheduler's own lock is never taken twice by one call, so it is
  not part of the state.
\<close>

record TaskScheduler =
  max_workers :: nat
  executor_shutdown :: bool
  submitted :: "string list"
  task_queues :: "TaskPriority \<Rightarrow> entry list"
  is_running :: bool
  tasks :: "(string \<times> BaseTask) list"
  running_tasks :: "(string \<times> future_state) list"
  completed_tasks :: "(string \<times> TaskResult) list"
  stats :: scheduler_stats

definition new_scheduler :: "nat \<Rightarrow> TaskScheduler" where
  "new_scheduler n =
     \<lparr> max_workers = n, executor_shutdown = False, submitted = [],
       task_queues = (\<lambda>p. []), is_running = False, tasks = [], running_tasks = [],
       completed_tasks = [],
       stats = \<lparr> total_tasks = 0, stat_completed_tasks = 0, failed_tasks = 0,
                 cancelled_tasks = 0, average_execution_time = 0 \<rparr> \<rparr>"

subsection \<open>queue.PriorityQueue\<close>

text \<open>A priority queue is the list of its entries; \<^verbatim>\<open>get_nowait\<close> removes the least one
  and fails (\<^verbatim>\<open>queue.Empty\<close>) on the empty queue.\<close>

definition put :: "entry \<Rightarrow> entry list \<Rightarrow> entry list" where
  "put x q = q @ [x]"

fun least :: "entry \<Rightarrow> entry list \<Rightarrow> entry" where
  "least m [] = m"
| "least m (x # xs) = least (min m x) xs"

definition get_nowait :: "entry list \<Rightarrow> (entry \<times> entry list) option" where
  "get_nowait q =
     (case q of
        [] \<Rightarrow> None
      | x # xs \<Rightarrow> let m = least x xs in Some (m, remove1 m q))"

subsection \<open>add_task\<close>

datatype sched_error = ValueError string

text \<open>The first dependency, in the order of the list, found in neither dictionary.\<close>

definition missing_dependency :: "TaskScheduler \<Rightarrow> BaseTask \<Rightarrow> string option" where
  "missing_dependency s task =
     find (\<lambda>dep_id. map_of (tasks s) dep_id = None \<and> map_of (completed_tasks s) dep_id = None)
       (dependencies task)"

text \<open>\<open>now\<close> is the reading of \<^verbatim>\<open>time.time()\<close>. The result is the raised error or the
  returned id, and the scheduler afterwards.\<close>

definition add_task :: "BaseTask \<Rightarrow> real \<Rightarrow> TaskScheduler \<Rightarrow> (sched_error + string) \<times> TaskScheduler" where
  "add_task task now s =
     (case missing_dependency s task of
        Some dep_id \<Rightarrow> (Inl (ValueError (''Dependencia no encontrada: '' @ dep_id)), s)
      | None \<Rightarrow>
          (Inr (task_id task),
           s\<lparr> tasks := AList.update (task_id task) task (tasks s),
              stats := (stats s)\<lparr>total_tasks := total_tasks (stats s) + 1\<rparr>,
              task_queues := (task_queues s)
                (priority task :=
                   put (priority_value (priority task), now, task_id task)
                     (task_queues s (priority task))) \<rparr>))"

definition get_task :: "TaskScheduler \<Rightarrow> string \<Rightarrow> BaseTask option" where
  "get_task s tid = map_of (tasks s) tid"


subsection \<open>cancel_task\<close>

text \<open>
  A handle that can still be cancelled is dropped from \<open>running_tasks\<close>; otherwise a task
  registered in \<open>tasks\<close> is asked to cancel itself. Neither branch touches a queue.
\<close>

definition cancel_task :: "string \<Rightarrow> TaskScheduler \<Rightarrow> (bool \<times> TaskScheduler) option" where
  "cancel_task tid s =
     (if (case map_of (running_tasks s) tid of None \<Rightarrow> False | Some fut \<Rightarrow> future_cancel fut)
      then Some (True, s\<lparr>running_tasks := AList.delete tid (running_tasks s)\<rparr>)
      else
        (case map_of (tasks s) tid of
           Some task \<Rightarrow>
             (case cancel task of
                None \<Rightarrow> None
              | Some task' \<Rightarrow> Some (True, s\<lparr>tasks := AList.update tid task' (tasks s)\<rparr>))
         | None \<Rightarrow> Some (False, s)))"

text \<open>
  The scheduler as \<^verbatim>\<open>cancel_task\<close> leaves it for the other threads, whether the call
  returns or blocks in \<^verbatim>\<open>task.cancel()\<close>: the task object registered in \<open>tasks\<close> is the
  one the call works on.
\<close>

definition cancel_task_state :: "string \<Rightarrow> TaskScheduler \<Rightarrow> TaskScheduler" where
  "cancel_task_state tid s =
     (if (case map_of (running_tasks s) tid of None \<Rightarrow> False | Some fut \<Rightarrow> future_cancel fut)
      then s\<lparr>running_tasks := AList.delete tid (running_tasks s)\<rparr>
      else
        (case map_of (tasks s) tid of
           Some task \<Rightarrow> s\<lparr>tasks := AList.update tid (cancel_state task) (tasks s)\<rparr>
         | None \<Rightarrow> s))"

subsection \<open>The dispatch of one priority queue\<close>

definition dependencies_completed :: "TaskScheduler \<Rightarrow> BaseTask \<Rightarrow> bool" where
  "dependencies_completed s task =
     list_all
       (\<lambda>dep_id. case map_of (tasks s) dep_id of
                    Some dep_task \<Rightarrow> status dep_task = COMPLETED
                  | None \<Rightarrow> map_of (completed_tasks s) dep_id \<noteq> None)
       (dependencies task)"

lemma get_nowait_shorter: "get_nowait q = Some (m, q') \<Longrightarrow> length q' < length q"
proof -
  have in_set: "least x xs \<in> set (x # xs)" for x :: entry and xs
    by (induction xs arbitrary: x) (auto simp: min_def)
  assume "get_nowait q = Some (m, q')"
  then obtain x xs where q: "q = x # xs" and m: "m = least x xs" and q': "q' = remove1 m q"
    by (auto simp: get_nowait_def Let_def split: list.splits)
  from in_set [of x xs] q m have "m \<in> set q" by simp
  then have "length (remove1 m q) = length q - 1" and "0 < length q"
    by (auto simp: length_remove1)
  with q' show ?thesis by simp
qed

text \<open>
  The loop of \<^verbatim>\<open>_process_priority_queue\<close>. An id no longer in \<open>tasks\<close> is skipped; a task
  with an unfinished dependency is put back with the timestamp \<open>now\<close> and ends the loop;
  an exception of \<^verbatim>\<open>executor.submit\<close> is logged and the loop goes on. The loop takes
  no lock, neither the scheduler's nor a task's.
\<close>

function process_priority_queue :: "TaskPriority \<Rightarrow> real \<Rightarrow> TaskScheduler \<Rightarrow> TaskScheduler" where
  "process_priority_queue pr now s =
     (if task_queues s pr \<noteq> [] \<and> length (running_tasks s) < max_workers s then
        (case get_nowait (task_queues s pr) of
           None \<Rightarrow> s
         | Some (e, q') \<Rightarrow>
             let tid = snd (snd e);
                 s1 = s\<lparr>task_queues := (task_queues s)(pr := q')\<rparr>
             in (case map_of (tasks s1) tid of
                   None \<Rightarrow> process_priority_queue pr now s1
                 | Some task \<Rightarrow>
                     if \<not> dependencies_completed s1 task then
                       s1\<lparr>task_queues := (task_queues s1)(pr := put (priority_value pr, now, tid) q')\<rparr>
                     else if executor_shutdown s1 then process_priority_queue pr now s1
                     else process_priority_queue pr now
                            (s1\<lparr>submitted := submitted s1 @ [tid],
                                running_tasks := AList.update tid FPending (running_tasks s1)\<rparr>)))
      else s)"
  by pat_completeness auto
termination
  by (relation "measure (\<lambda>(pr, now, s). length (task_queues s pr))")
    (auto dest: get_nowait_shorter)

declare process_priority_queue.simps [simp del]

subsection \<open>Worker completion: \<^verbatim>\<open>_execute_task\<close>\<close>

text \<open>
  The counters are updated by the status of the result; the average is then recomputed
  whenever the completed counter is positive, whatever the status of the result.
\<close>

definition count_result :: "TaskResult \<Rightarrow> scheduler_stats \<Rightarrow> scheduler_stats" where
  "count_result result st =
     (if r_status result = COMPLETED
        then st\<lparr>stat_completed_tasks := stat_completed_tasks st + 1\<rparr>
      else if r_status result = FAILED
        then st\<lparr>failed_tasks := failed_tasks st + 1\<rparr>
      else if r_status result = CANCELLED
        then st\<lparr>cancelled_tasks := cancelled_tasks st + 1\<rparr>
      else st)"

definition update_average :: "TaskResult \<Rightarrow> scheduler_stats \<Rightarrow> scheduler_stats" where
  "update_average result st =
     (if stat_completed_tasks st > 0 then
        let total_time = average_execution_time st * (real (stat_completed_tasks st) - 1)
                           + r_execution_time result
        in st\<lparr>average_execution_time := total_time / real (stat_completed_tasks st)\<rparr>
      else st)"

definition record_result :: "string \<Rightarrow> TaskResult \<Rightarrow> TaskScheduler \<Rightarrow> TaskScheduler" where
  "record_result tid result s =
     s\<lparr> tasks := AList.delete tid (tasks s),
        completed_tasks := AList.update tid result (completed_tasks s),
        stats := update_average result (count_result result (stats s)) \<rparr>"

text \<open>
  The worker holds the task object itself. A \<^verbatim>\<open>run()\<close> that never returns leaves the
  worker blocked, and nothing is recorded. \<^verbatim>\<open>run()\<close> raises nothing, so the
  \<^verbatim>\<open>except\<close> clause is not reached; the \<^verbatim>\<open>finally\<close> clause drops the handle.
\<close>

definition execute_task ::
  "BaseTask \<Rightarrow> work \<Rightarrow> datetime \<Rightarrow> datetime \<Rightarrow> TaskScheduler \<Rightarrow> (TaskResult \<times> BaseTask \<times> TaskScheduler) option" where
  "execute_task task w now0 now1 s =
     (case run task w now0 now1 of
        None \<Rightarrow> None
      | Some (result, task') \<Rightarrow>
          let s1 = record_result (task_id task') result s;
              s2 = s1\<lparr>running_tasks := AList.delete (task_id task') (running_tasks s1)\<rparr>
          in Some (result, task', s2))"



subsection \<open>Retention: \<^verbatim>\<open>_cleanup_completed_tasks\<close>\<close>

text \<open>The sort key \<^verbatim>\<open>x[1].end_time or datetime.min\<close>.\<close>

definition end_key :: "TaskResult \<Rightarrow> datetime" where
  "end_key r = (case r_end_time r of None \<Rightarrow> 0 | Some e \<Rightarrow> e)"

text \<open>\<^verbatim>\<open>sorted(items, key=..., reverse=True)\<close>: descending and stable, that is, the stable
  ascending sort by the negated key.\<close>

definition sorted_recent_first :: "(string \<times> TaskResult) list \<Rightarrow> (string \<times> TaskResult) list" where
  "sorted_recent_first items = sort_key (\<lambda>x. - int (end_key (snd x))) items"

text \<open>\<^verbatim>\<open>dict(pairs)\<close>: a later pair replaces an earlier one with the same key.\<close>

definition dict_of :: "('k \<times> 'v) list \<Rightarrow> ('k \<times> 'v) list" where
  "dict_of pairs = fold (\<lambda>(k, v) d. AList.update k v d) pairs []"

definition cleanup_completed_tasks :: "nat \<Rightarrow> TaskScheduler \<Rightarrow> TaskScheduler" where
  "cleanup_completed_tasks max_completed s =
     (if length (completed_tasks s) > max_completed then
        s\<lparr>completed_tasks := dict_of (take max_completed (sorted_recent_first (completed_tasks s)))\<rparr>
      else s)"

text \<open>The scheduler loop calls it with the default argument.\<close>

definition cleanup_cycle :: "TaskScheduler \<Rightarrow> TaskScheduler" where
  "cleanup_cycle s = cleanup_completed_tasks 1000 s"

text \<open>One cycle of \<^verbatim>\<open>_scheduler_loop\<close> with \<^verbatim>\<open>stop_event\<close> clear; \<open>now\<close> gives the clock
  reading of each of the four sweeps.\<close>

definition scheduler_cycle :: "(TaskPriority \<Rightarrow> real) \<Rightarrow> TaskScheduler \<Rightarrow> TaskScheduler" where
  "scheduler_cycle now s =
     cleanup_cycle
       (process_priority_queue LOW (now LOW)
         (process_priority_queue NORMAL (now NORMAL)
           (process_priority_queue HIGH (now HIGH)
             (process_priority_queue CRITICAL (now CRITICAL) s))))"

subsection \<open>get_all_tasks\<close>










section \<open>Concrete tasks and work\<close>

definition fresh_task :: BaseTask where
  "fresh_task = new_task ''t1'' ''scan'' NORMAL 60 []"

text \<open>Work that returns a payload at the second poll, and nobody cancels.\<close>

definition quick_work :: work where
  "quick_work = \<lparr> finishes_at = Some 2, outcome = Returns (Some [(''cpu'', ''ok'')]), cancel_at = None \<rparr>"

text \<open>Work that would need five polls, with a \<^verbatim>\<open>cancel()\<close> from another thread seen at the second.\<close>

definition cancelled_work :: work where
  "cancelled_work = \<lparr> finishes_at = Some 5, outcome = Returns (Some [(''cpu'', ''ok'')]), cancel_at = Some 2 \<rparr>"

text \<open>A task that is running and has been asked to cancel: \<^verbatim>\<open>cancel()\<close> has set its flag.\<close>

definition flagged_running_task :: BaseTask where
  "flagged_running_task = fresh_task\<lparr>status := RUNNING, start_time := Some 5, cancelled := True\<rparr>"

definition flagged_pending_task :: BaseTask where
  "flagged_pending_task = fresh_task\<lparr>cancelled := True\<rparr>"

text \<open>Work that raises after one poll.\<close>

definition failing_work :: work where
  "failing_work = \<lparr> finishes_at = Some 1, outcome = Raises (OtherError ''boom''), cancel_at = None \<rparr>"

definition result_of :: "string \<Rightarrow> TaskStatus \<Rightarrow> real \<Rightarrow> datetime option \<Rightarrow> TaskResult" where
  "result_of tid st secs ended =
     \<lparr> r_task_id = tid, r_status = st, r_data = [], r_error = None, r_execution_time = secs,
       r_start_time = None, r_end_time = ended, r_progress = 0, r_metadata = [] \<rparr>"

text \<open>A task that names a dependency nobody has submitted.\<close>

definition orphan_task :: BaseTask where
  "orphan_task = new_task ''t2'' ''report'' HIGH 60 [''ghost'']"

text \<open>A scheduler holding three results, the second of which has no end time.\<close>

definition three_done :: TaskScheduler where
  "three_done = (new_scheduler 4)
     \<lparr>completed_tasks :=
        [(''a'', result_of ''a'' TIMEOUT 1 (Some 30)),
         (''b'', result_of ''b'' CANCELLED 0 None),
         (''c'', result_of ''c'' FAILED 2 (Some 50))]\<rparr>"

text \<open>
  The fresh task and a task that depends on it are submitted, in this order, and a first
  sweep of the NORMAL queue is made: the scenario in which the dependency then fails.
\<close>

definition dependent_task :: BaseTask where
  "dependent_task = new_task ''y'' ''report'' NORMAL 60 [''t1'']"

definition submitted_pair :: TaskScheduler where
  "submitted_pair =
     snd (add_task dependent_task 2 (snd (add_task fresh_task 1 (new_scheduler 4))))"

definition first_sweep :: TaskScheduler where
  "first_sweep = process_priority_queue NORMAL 3 submitted_pair"

text \<open>A scheduler with the fresh task submitted and not yet dispatched.\<close>

definition pending_scheduler :: TaskScheduler where
  "pending_scheduler = snd (add_task fresh_task 1 (new_scheduler 4))"



section \<open>Properties of a task\<close>

lemmas task_defs = acquire_def release_def notify_status_change_def set_status_def
  create_result_def notify_complete_def stamp_end_def observe_def

lemma str_int_examples:
  "str_int 60 = ''60'' \<and> str_int 300 = ''300'' \<and> str_int 0 = ''0'' \<and> str_int (- 5) = ''-5''"
  by (simp add: str_int_def str_nat.simps) code_simp

lemma is_set_mono: "is_set t w j \<Longrightarrow> j \<le> k \<Longrightarrow> is_set t w k"
  by (auto simp: is_set_def split: option.splits)

text \<open>Work that finishes within the timeout, unobserved by any cancellation, ends the loop
  at the poll where it finishes.\<close>

lemma guard_loop_finishes:
  assumes "finishes_at w = Some f" and "k \<le> f" and "int f \<le> max 0 (10 * timeout t)"
    and "\<not> is_set t w f"
  shows "guard_loop t w k = (None, f)"
  using assms
proof (induction "f - k" arbitrary: k)
  case 0
  then have "k = f" by simp
  with 0 show ?case by (simp add: guard_loop.simps is_alive_def)
next
  case (Suc n)
  then have lt: "k < f" by simp
  with Suc.prems have "is_alive w k" "int k < 10 * timeout t" "\<not> is_set t w k"
    using is_set_mono [of t w k f] by (auto simp: is_alive_def)
  moreover have "guard_loop t w (Suc k) = (None, f)"
    using Suc lt by (intro Suc.hyps) auto
  ultimately show ?case by (subst guard_loop.simps) simp
qed

lemma execute_with_timeout_returns:
  assumes "finishes_at w = Some f" and "int f \<le> max 0 (10 * timeout t)"
    and "\<not> is_set t w f" and "outcome w = Returns p"
  shows "execute_with_timeout t w = (Inr p, f)"
  using guard_loop_finishes [OF assms(1) _ assms(2,3), of 0] assms(1,4)
  by (simp add: execute_with_timeout_def is_alive_def)

text \<open>
  The successful path of \<^verbatim>\<open>run()\<close>: the payload is stored and the progress set under the
  task's lock, and \<^verbatim>\<open>_set_status(COMPLETED)\<close> is called with the lock still held. It
  takes the same lock, so the call never returns, whatever the task and the payload.
\<close>

lemma run_blocks_on_success:
  assumes "status t = PENDING" and "finishes_at w = Some f"
    and "int f \<le> max 0 (10 * timeout t)" and "\<not> is_set t w f" and "outcome w = Returns p"
  shows "run t w now0 now1 = None"
proof (cases "lock_held t")
  case True
  then show ?thesis by (simp add: run_def acquire_def)
next
  case False
  let ?t3 = "notify_status_change RUNNING
     (release (t\<lparr>lock_held := True, status := RUNNING, start_time := Some now0, progress := 0\<rparr>))"
  have a: "timeout ?t3 = timeout t" "cancelled ?t3 = cancelled t" "\<not> lock_held ?t3"
    by (simp_all add: task_defs)
  have "\<not> is_set t w 0"
    using assms(4) is_set_mono [of t w 0 f] by auto
  with a assms(4) have ns: "\<not> is_set ?t3 w f" "\<not> is_set ?t3 w 0"
    by (simp_all add: is_set_def)
  have e: "execute_with_timeout ?t3 w = (Inr p, f)"
    using execute_with_timeout_returns [of w f ?t3 p] assms a ns by simp
  have "run_try ?t3 w = None"
    using e ns a by (simp add: run_try_def acquire_def set_status_def)
  then show ?thesis using False assms(1) by (simp add: run_def acquire_def Let_def)
qed

lemma cancel_pending_blocks: "status t = PENDING \<Longrightarrow> cancel t = None"
  by (simp add: cancel_def acquire_def set_status_def)

lemma cancel_running:
  "\<not> lock_held t \<Longrightarrow> status t = RUNNING \<Longrightarrow> cancel t = Some (t\<lparr>cancelled := True\<rparr>)"
  by (simp add: cancel_def acquire_def release_def)

lemma run_not_pending:
  "\<not> lock_held t \<Longrightarrow> status t \<noteq> PENDING \<Longrightarrow> run t w a b = Some (create_result t, t)"
  by (simp add: run_def acquire_def release_def create_result_def)

lemma set_status_Some: "set_status st e t = Some t' \<Longrightarrow> status t' = st \<and> \<not> lock_held t'"
  by (auto simp: task_defs Let_def split: if_splits option.splits)

lemma run_try_post:
  "run_try t w = Some (early, t') \<Longrightarrow> status t' \<noteq> PENDING \<and> \<not> lock_held t'"
  by (auto simp: run_try_def release_def
      split: if_splits prod.splits sum.splits exn.splits option.splits
      dest!: set_status_Some)

lemma run_post:
  "status t = PENDING \<Longrightarrow> run t w a b = Some (r, t') \<Longrightarrow> status t' \<noteq> PENDING \<and> \<not> lock_held t'"
  by (auto simp: run_def Let_def acquire_def release_def stamp_end_def notify_complete_def
      split: if_splits option.splits prod.splits dest!: run_try_post)

text \<open>Whenever \<^verbatim>\<open>run()\<close> has returned, a second call changes nothing and returns the
  snapshot of the task as the first call left it.\<close>

lemma run_twice_state:
  assumes "run t w a b = Some (r, t')"
  shows "run t' w' c d = Some (create_result t', t')"
proof (cases "status t = PENDING")
  case True
  from run_post [OF True assms] show ?thesis by (simp add: run_not_pending)
next
  case False
  with assms have "\<not> lock_held t" "t' = t"
    by (auto simp: run_def acquire_def release_def split: if_splits)
  with False show ?thesis by (simp add: run_not_pending)
qed

text \<open>
  C1. A task whose guarded work returns a payload, with no error, cancellation or timeout,
  should end COMPLETED with the payload stored and \<^verbatim>\<open>run()\<close> returning its TaskResult.
  On the code, \<^verbatim>\<open>run()\<close> of a fresh task whose work returns a payload at the second poll
  never returns: it blocks in \<^verbatim>\<open>_set_status\<close> on the lock it holds itself.
\<close>

theorem run_success_never_returns:
  "status fresh_task = PENDING \<and> \<not> lock_held fresh_task \<and> run fresh_task quick_work 10 20 = None"
  using run_blocks_on_success [of fresh_task quick_work 2 "Some [(''cpu'', ''ok'')]" 10 20]
  by (simp add: fresh_task_def new_task_def quick_work_def is_set_def)

text \<open>
  C2. \<^verbatim>\<open>cancel()\<close> of a PENDING task should move it to CANCELLED and return. On the code,
  \<^verbatim>\<open>cancel()\<close> of a fresh task never returns: it calls \<^verbatim>\<open>_set_status\<close> while holding the
  task's lock.
\<close>

theorem cancel_pending_never_returns:
  "status fresh_task = PENDING \<and> \<not> lock_held fresh_task \<and> cancel fresh_task = None"
  using cancel_pending_blocks [of fresh_task]
  by (simp add: fresh_task_def new_task_def)

text \<open>
  C3. A second \<^verbatim>\<open>run()\<close> should return the same TaskResult as the first. On the code, when
  the first call ends CANCELLED its result is built before the \<^verbatim>\<open>finally\<close> clause stamps
  the end time, so the second call, which leaves the task untouched, returns a result with
  another end time and another execution time.
\<close>

theorem run_twice_differs_after_cancel:
  "(case run fresh_task cancelled_work 10 20 of
      None \<Rightarrow> False
    | Some (r1, t1) \<Rightarrow>
        (case run t1 cancelled_work 30 40 of
           None \<Rightarrow> False
         | Some (r2, t2) \<Rightarrow>
             t2 = t1 \<and> r2 \<noteq> r1 \<and> r_status r1 = CANCELLED \<and> r_status r2 = CANCELLED
             \<and> r_end_time r1 = None \<and> r_end_time r2 = Some 20))"
  by (simp add: run_def run_try_def execute_with_timeout_def guard_loop.simps is_alive_def
      is_set_def task_defs fresh_task_def new_task_def cancelled_work_def Let_def)

text \<open>
  C9, as stated, for every task whose cancellation flag is set: a task that is already
  RUNNING when \<^verbatim>\<open>cancel()\<close> sets its flag is not PENDING, so \<^verbatim>\<open>run()\<close> returns its
  current result, with status RUNNING, and leaves the status as it is.
\<close>

theorem run_flagged_running_counterexample:
  "cancelled flagged_running_task \<and> \<not> lock_held flagged_running_task
   \<and> map_option (\<lambda>(r, t'). (r_status r, status t')) (run flagged_running_task quick_work 10 20)
       = Some (RUNNING, RUNNING)"
  by (simp add: run_not_pending flagged_running_task_def fresh_task_def new_task_def create_result_def)

text \<open>
  C9, amended: for every task in status PENDING whose lock is free and whose cancellation
  flag is set before \<^verbatim>\<open>run()\<close> is invoked, \<^verbatim>\<open>run()\<close> returns a TaskResult with status
  CANCELLED and leaves the task CANCELLED; the concrete work is never consulted (the
  outcome is the same for every work, and the result data is untouched).
\<close>

theorem run_cancelled_before_start:
  assumes "cancelled t" and "status t = PENDING" and "\<not> lock_held t"
  shows "\<exists>r t'. run t w now0 now1 = Some (r, t') \<and> r_status r = CANCELLED
           \<and> status t' = CANCELLED \<and> result_data t' = result_data t
           \<and> run t w' now0 now1 = run t w now0 now1"
  using assms
  by (simp add: run_def run_try_def is_set_def task_defs Let_def)

theorem run_cancelled_before_start_witness:
  "cancelled flagged_pending_task \<and> status flagged_pending_task = PENDING
   \<and> \<not> lock_held flagged_pending_task
   \<and> (\<exists>r t'. run flagged_pending_task quick_work 10 20 = Some (r, t') \<and> r_status r = CANCELLED
           \<and> status t' = CANCELLED \<and> result_data t' = result_data flagged_pending_task
           \<and> run flagged_pending_task cancelled_work 10 20 = run flagged_pending_task quick_work 10 20)"
proof -
  have h: "cancelled flagged_pending_task" "status flagged_pending_task = PENDING"
    "\<not> lock_held flagged_pending_task"
    by (simp_all add: flagged_pending_task_def fresh_task_def new_task_def)
  from run_cancelled_before_start [OF h, of quick_work 10 20 cancelled_work] h
  show ?thesis by simp
qed

section \<open>Properties of the scheduler\<close>

subsection \<open>Submission\<close>

lemma missing_dependency_Some:
  assumes "dep \<in> set (dependencies task)" and "map_of (tasks s) dep = None"
    and "map_of (completed_tasks s) dep = None"
  shows "\<exists>d. missing_dependency s task = Some d \<and> d \<in> set (dependencies task)
           \<and> map_of (tasks s) d = None \<and> map_of (completed_tasks s) d = None"
proof (cases "missing_dependency s task")
  case None
  with assms show ?thesis by (auto simp: missing_dependency_def find_None_iff)
next
  case (Some d)
  then show ?thesis by (auto simp: missing_dependency_def find_Some_iff)
qed

text \<open>
  C4. A task with a dependency id found in neither \<open>tasks\<close> nor \<open>completed_tasks\<close> is
  refused by \<^verbatim>\<open>add_task\<close> with an error naming a missing dependency, and the scheduler is
  left exactly as it was: nothing stored, nothing enqueued, no counter incremented.
\<close>

theorem add_task_missing_dependency:
  assumes "dep \<in> set (dependencies task)" and "map_of (tasks s) dep = None"
    and "map_of (completed_tasks s) dep = None"
  shows "\<exists>d. d \<in> set (dependencies task)
           \<and> add_task task now s = (Inl (ValueError (''Dependencia no encontrada: '' @ d)), s)"
  using missing_dependency_Some [OF assms] by (auto simp: add_task_def)

theorem add_task_missing_dependency_witness:
  "''ghost'' \<in> set (dependencies orphan_task)
   \<and> map_of (tasks (new_scheduler 4)) ''ghost'' = None
   \<and> map_of (completed_tasks (new_scheduler 4)) ''ghost'' = None
   \<and> (\<exists>d. d \<in> set (dependencies orphan_task)
           \<and> add_task orphan_task 7 (new_scheduler 4)
               = (Inl (ValueError (''Dependencia no encontrada: '' @ d)), new_scheduler 4))"
proof -
  have h: "''ghost'' \<in> set (dependencies orphan_task)"
    "map_of (tasks (new_scheduler 4)) ''ghost'' = None"
    "map_of (completed_tasks (new_scheduler 4)) ''ghost'' = None"
    by (simp_all add: orphan_task_def new_task_def new_scheduler_def)
  from add_task_missing_dependency [OF h, of 7] h show ?thesis by simp
qed

subsection \<open>Retention\<close>

lemma update_fresh: "k \<notin> fst ` set acc \<Longrightarrow> AList.update k v acc = acc @ [(k, v)]"
  by (induction acc) auto

lemma fold_update_distinct:
  "distinct (map fst (acc @ xs)) \<Longrightarrow> fold (\<lambda>(k, v) d. AList.update k v d) xs acc = acc @ xs"
proof (induction xs arbitrary: acc)
  case Nil
  then show ?case by simp
next
  case (Cons x xs)
  obtain k v where x: "x = (k, v)" by (cases x)
  from Cons.prems x have "k \<notin> fst ` set acc" by auto
  then have "AList.update k v acc = acc @ [(k, v)]" by (rule update_fresh)
  moreover from Cons.prems x have "distinct (map fst ((acc @ [(k, v)]) @ xs))" by simp
  ultimately show ?case using Cons.IH [of "acc @ [(k, v)]"] x by simp
qed

lemma dict_of_distinct: "distinct (map fst xs) \<Longrightarrow> dict_of xs = xs"
  using fold_update_distinct [of "[]" xs] by (simp add: dict_of_def)

lemma length_dict_of: "length (dict_of xs) \<le> length xs"
proof -
  have "length (fold (\<lambda>(k, v) d. AList.update k v d) xs acc) \<le> length acc + length xs"
    for acc :: "('a \<times> 'b) list"
  proof (induction xs arbitrary: acc)
    case Nil
    then show ?case by simp
  next
    case (Cons x xs)
    obtain k v where x: "x = (k, v)" by (cases x)
    have "length (AList.update k v acc) \<le> Suc (length acc)"
      by (induction acc) auto
    with Cons [of "AList.update k v acc"] x show ?case by simp
  qed
  from this [of "[]"] show ?thesis by (simp add: dict_of_def)
qed

lemma set_sorted_recent_first: "set (sorted_recent_first xs) = set xs"
  by (simp add: sorted_recent_first_def)

lemma distinct_keys_sorted_recent_first:
  "distinct (map fst xs) \<Longrightarrow> distinct (map fst (sorted_recent_first xs))"
  by (simp add: distinct_map sorted_recent_first_def)

lemma sorted_take_drop:
  assumes "sorted (map f ys)" and "a \<in> set (take n ys)" and "b \<in> set (drop n ys)"
  shows "f a \<le> f b"
proof -
  have "sorted (map f (take n ys) @ map f (drop n ys))"
    using assms(1) by (simp flip: map_append)
  with assms(2,3) show ?thesis by (auto simp: sorted_append)
qed

text \<open>Whatever is among the first \<open>n\<close> of the sorted results ended no earlier than
  whatever comes after them.\<close>

lemma recent_first_take_drop:
  assumes "a \<in> set (take n (sorted_recent_first xs))"
    and "b \<in> set (drop n (sorted_recent_first xs))"
  shows "end_key (snd b) \<le> end_key (snd a)"
proof -
  have "sorted (map (\<lambda>x. - int (end_key (snd x))) (sorted_recent_first xs))"
    by (simp add: sorted_recent_first_def)
  from sorted_take_drop [OF this assms] show ?thesis by simp
qed

text \<open>
  C7. After a cleanup the dictionary \<open>completed_tasks\<close> has exactly \<open>min cap n\<close> of its \<open>n\<close>
  entries, so at most \<open>cap\<close>; the cleanup of a scheduler cycle is the cleanup with the cap
  1000, so at most 1000 entries remain after it. Nothing else of the scheduler changes.
  Every entry kept was there before, under its own key, and every entry evicted has an end
  time (\<^verbatim>\<open>datetime.min\<close> when it has none) no later than that of every entry kept: the
  oldest go first and the most recently finished stay.
\<close>

theorem cleanup_keeps_most_recent:
  assumes "distinct (map fst (completed_tasks s))"
  shows "length (completed_tasks (cleanup_completed_tasks cap s)) = min cap (length (completed_tasks s))
     \<and> length (completed_tasks (cleanup_completed_tasks cap s)) \<le> cap
     \<and> cleanup_cycle s = cleanup_completed_tasks 1000 s
     \<and> length (completed_tasks (cleanup_cycle s)) = min 1000 (length (completed_tasks s))
     \<and> length (completed_tasks (cleanup_cycle s)) \<le> 1000
     \<and> cleanup_completed_tasks cap s
          = s\<lparr>completed_tasks := completed_tasks (cleanup_completed_tasks cap s)\<rparr>
     \<and> distinct (map fst (completed_tasks (cleanup_completed_tasks cap s)))
     \<and> set (completed_tasks (cleanup_completed_tasks cap s)) \<subseteq> set (completed_tasks s)
     \<and> (\<forall>kept \<in> set (completed_tasks (cleanup_completed_tasks cap s)).
          \<forall>evicted \<in> set (completed_tasks s) - set (completed_tasks (cleanup_completed_tasks cap s)).
            end_key (snd evicted) \<le> end_key (snd kept))"
proof -
  let ?xs = "completed_tasks s"
  let ?ys = "sorted_recent_first ?xs"
  have dk: "distinct (map fst (take n ?ys))" for n
    using distinct_keys_sorted_recent_first [OF assms]
    by (simp add: take_map [symmetric] distinct_take)
  have d: "dict_of (take n ?ys) = take n ?ys" for n
    using dk by (intro dict_of_distinct)
  have ly: "length ?ys = length ?xs" by (simp add: sorted_recent_first_def)
  have cyc: "cleanup_cycle s = cleanup_completed_tasks 1000 s" by (simp add: cleanup_cycle_def)
  have rest: "cleanup_completed_tasks cap s
      = s\<lparr>completed_tasks := completed_tasks (cleanup_completed_tasks cap s)\<rparr>"
    by (simp add: cleanup_completed_tasks_def)
  have len: "length (completed_tasks (cleanup_completed_tasks n s)) = min n (length ?xs)" for n
    by (simp add: cleanup_completed_tasks_def d ly)
  show ?thesis
  proof (cases "cap < length ?xs")
    case False
    then have "completed_tasks (cleanup_completed_tasks cap s) = ?xs"
      by (simp add: cleanup_completed_tasks_def)
    with False assms cyc rest len [of 1000] show ?thesis by simp
  next
    case True
    then have c: "completed_tasks (cleanup_completed_tasks cap s) = take cap ?ys"
      by (simp add: cleanup_completed_tasks_def d)
    have sub: "set (take cap ?ys) \<subseteq> set ?xs"
      using set_take_subset [of cap ?ys] by (simp add: set_sorted_recent_first)
    have "set ?xs = set (take cap ?ys) \<union> set (drop cap ?ys)"
      using set_append [of "take cap ?ys" "drop cap ?ys"] by (simp add: set_sorted_recent_first)
    then have ev: "set ?xs - set (take cap ?ys) \<subseteq> set (drop cap ?ys)" by auto
    have old: "\<forall>kept \<in> set (take cap ?ys). \<forall>evicted \<in> set ?xs - set (take cap ?ys).
        end_key (snd evicted) \<le> end_key (snd kept)"
      using ev recent_first_take_drop [of _ cap ?xs] by blast
    from c sub old dk [of cap] cyc rest len [of cap] len [of 1000] show ?thesis by simp
  qed
qed

text \<open>With three results and a cap of two, the result without an end time is the one
  evicted, and the two others are kept, the latest first; the cleanup of a scheduler cycle
  keeps all three.\<close>

theorem cleanup_keeps_most_recent_witness:
  "distinct (map fst (completed_tasks three_done))
   \<and> length (completed_tasks three_done) = 3
   \<and> completed_tasks (cleanup_completed_tasks 2 three_done)
       = [(''c'', result_of ''c'' FAILED 2 (Some 50)), (''a'', result_of ''a'' TIMEOUT 1 (Some 30))]
   \<and> length (completed_tasks (cleanup_completed_tasks 2 three_done))
       = min 2 (length (completed_tasks three_done))
   \<and> length (completed_tasks (cleanup_completed_tasks 2 three_done)) \<le> 2
   \<and> cleanup_cycle three_done = cleanup_completed_tasks 1000 three_done
   \<and> completed_tasks (cleanup_cycle three_done) = completed_tasks three_done
   \<and> length (completed_tasks (cleanup_cycle three_done)) \<le> 1000
   \<and> distinct (map fst (completed_tasks (cleanup_completed_tasks 2 three_done)))
   \<and> set (completed_tasks (cleanup_completed_tasks 2 three_done)) \<subseteq> set (completed_tasks three_done)
   \<and> end_key (result_of ''b'' CANCELLED 0 None) \<le> end_key (result_of ''a'' TIMEOUT 1 (Some 30))"
proof -
  have h: "distinct (map fst (completed_tasks three_done))"
    by (simp add: three_done_def new_scheduler_def)
  have n: "length (completed_tasks three_done) = 3"
    by (simp add: three_done_def new_scheduler_def)
  have v: "completed_tasks (cleanup_completed_tasks 2 three_done)
      = [(''c'', result_of ''c'' FAILED 2 (Some 50)), (''a'', result_of ''a'' TIMEOUT 1 (Some 30))]"
    by (simp add: three_done_def new_scheduler_def cleanup_completed_tasks_def
        sorted_recent_first_def end_key_def result_of_def dict_of_def)
  have u: "completed_tasks (cleanup_cycle three_done) = completed_tasks three_done"
    by (simp add: cleanup_cycle_def cleanup_completed_tasks_def n)
  have kept: "(''a'', result_of ''a'' TIMEOUT 1 (Some 30))
      \<in> set (completed_tasks (cleanup_completed_tasks 2 three_done))"
    by (simp add: v)
  have evicted: "(''b'', result_of ''b'' CANCELLED 0 None)
      \<in> set (completed_tasks three_done) - set (completed_tasks (cleanup_completed_tasks 2 three_done))"
    by (simp add: v) (simp add: three_done_def new_scheduler_def)
  from cleanup_keeps_most_recent [OF h, of 2] kept evicted
  have "end_key (snd (''b'', result_of ''b'' CANCELLED 0 None))
      \<le> end_key (snd (''a'', result_of ''a'' TIMEOUT 1 (Some 30)))"
    by blast
  moreover from cleanup_keeps_most_recent [OF h, of 2]
  have "length (completed_tasks (cleanup_completed_tasks 2 three_done))
      = min 2 (length (completed_tasks three_done))"
    "length (completed_tasks (cleanup_completed_tasks 2 three_done)) \<le> 2"
    "cleanup_cycle three_done = cleanup_completed_tasks 1000 three_done"
    "length (completed_tasks (cleanup_cycle three_done)) \<le> 1000"
    "distinct (map fst (completed_tasks (cleanup_completed_tasks 2 three_done)))"
    "set (completed_tasks (cleanup_completed_tasks 2 three_done)) \<subseteq> set (completed_tasks three_done)"
    by blast+
  ultimately show ?thesis using h n v u by simp
qed

subsection \<open>Dispatch\<close>

lemma get_nowait_nonempty: "get_nowait q = Some (e, q') \<Longrightarrow> q \<noteq> []"
  by (auto simp: get_nowait_def)

lemma dependencies_completed_cong:
  "tasks s' = tasks s \<Longrightarrow> completed_tasks s' = completed_tasks s
   \<Longrightarrow> dependencies_completed s' task = dependencies_completed s task"
  by (simp add: dependencies_completed_def cong: option.case_cong)

lemma dependencies_completed_queues [simp]:
  "dependencies_completed (s\<lparr>task_queues := q\<rparr>) task = dependencies_completed s task"
  by (rule dependencies_completed_cong) simp_all

text \<open>The dispatch loop only ever appends to the list of submissions.\<close>

lemma submitted_grows:
  "set (submitted s) \<subseteq> set (submitted (process_priority_queue pr now s))"
proof (induction pr now s rule: process_priority_queue.induct)
  case (1 pr now s)
  show ?case
  proof (cases "task_queues s pr \<noteq> [] \<and> length (running_tasks s) < max_workers s")
    case False
    then show ?thesis by (subst process_priority_queue.simps) auto
  next
    case True
    show ?thesis
    proof (cases "get_nowait (task_queues s pr)")
      case None
      with True show ?thesis by (subst process_priority_queue.simps) simp
    next
      case (Some x2)
      obtain e q' where x2: "x2 = (e, q')" by (cases x2)
      let ?tid = "snd (snd e)"
      let ?s1 = "s\<lparr>task_queues := (task_queues s)(pr := q')\<rparr>"
      show ?thesis
      proof (cases "map_of (tasks ?s1) ?tid")
        case None
        from "1.IH"(1) [OF True Some x2 [symmetric] refl refl None]
        have "set (submitted ?s1) \<subseteq> set (submitted (process_priority_queue pr now ?s1))" .
        with True Some x2 None show ?thesis
          by (subst process_priority_queue.simps) (simp add: Let_def)
      next
        case m: (Some task)
        show ?thesis
        proof (cases "dependencies_completed ?s1 task")
          case False
          with True Some x2 m show ?thesis
            by (subst process_priority_queue.simps) (simp add: Let_def)
        next
          case dc: True
          then have nn: "\<not> \<not> dependencies_completed ?s1 task" by simp
          show ?thesis
          proof (cases "executor_shutdown ?s1")
            case sh: True
            from "1.IH"(2) [OF True Some x2 [symmetric] refl refl m nn sh]
            have "set (submitted ?s1) \<subseteq> set (submitted (process_priority_queue pr now ?s1))" .
            with True Some x2 m dc sh show ?thesis
              by (subst process_priority_queue.simps) (simp add: Let_def)
          next
            case sh: False
            let ?s2 = "?s1\<lparr>submitted := submitted ?s1 @ [?tid],
                running_tasks := AList.update ?tid FPending (running_tasks ?s1)\<rparr>"
            from "1.IH"(3) [OF True Some x2 [symmetric] refl refl m nn sh]
            have "set (submitted ?s2) \<subseteq> set (submitted (process_priority_queue pr now ?s2))" .
            then have "set (submitted s) \<subseteq> set (submitted (process_priority_queue pr now ?s2))"
              by auto
            with True Some x2 m dc sh show ?thesis
              by (subst process_priority_queue.simps) (simp add: Let_def)
          qed
        qed
      qed
    qed
  qed
qed

text \<open>A popped task with an unfinished dependency goes back on the queue it came from,
  and nothing is submitted.\<close>

lemma unmet_dependency_requeued:
  assumes "get_nowait (task_queues s pr) = Some (e, q')"
    and "map_of (tasks s) (snd (snd e)) = Some task"
    and "\<not> dependencies_completed s task"
    and "length (running_tasks s) < max_workers s"
  shows "process_priority_queue pr now s
     = s\<lparr>task_queues := (task_queues s)(pr := put (priority_value pr, now, snd (snd e)) q')\<rparr>"
  using assms get_nowait_nonempty [OF assms(1)]
  by (subst process_priority_queue.simps) (simp add: Let_def)

text \<open>A popped task registered in \<open>tasks\<close> whose dependencies pass the check is submitted,
  whatever its status.\<close>

lemma popped_task_submitted:
  assumes "get_nowait (task_queues s pr) = Some (e, q')"
    and "map_of (tasks s) (snd (snd e)) = Some task"
    and "dependencies_completed s task"
    and "length (running_tasks s) < max_workers s"
    and "\<not> executor_shutdown s"
  shows "snd (snd e) \<in> set (submitted (process_priority_queue pr now s))"
proof -
  let ?s2 = "s\<lparr>task_queues := (task_queues s)(pr := q'),
      submitted := submitted s @ [snd (snd e)],
      running_tasks := AList.update (snd (snd e)) FPending (running_tasks s)\<rparr>"
  have "process_priority_queue pr now s = process_priority_queue pr now ?s2"
    using assms get_nowait_nonempty [OF assms(1)]
    by (subst process_priority_queue.simps) (simp add: Let_def)
  moreover have "snd (snd e) \<in> set (submitted ?s2)" by simp
  ultimately show ?thesis using submitted_grows [of ?s2 pr now] by auto
qed

text \<open>What \<^verbatim>\<open>cancel()\<close> and \<^verbatim>\<open>cancel_task\<close> leave behind is what they return, when
  they return; \<^verbatim>\<open>cancel()\<close> never changes the status or the dependencies of a task.\<close>

lemma cancel_state_returned: "cancel t = Some t' \<Longrightarrow> cancel_state t = t'"
  by (auto simp: cancel_def cancel_state_def split: option.splits if_splits)

lemma cancel_state_blocked:
  "cancel t = None \<Longrightarrow> cancel_state t = (if lock_held t then t else t\<lparr>lock_held := True\<rparr>)"
  by (auto simp: cancel_def cancel_state_def acquire_def set_status_def
      split: option.splits if_splits)

lemma cancel_state_fields:
  "status (cancel_state t) = status t \<and> dependencies (cancel_state t) = dependencies t"
  by (simp add: cancel_state_def acquire_def release_def set_status_def)

lemma cancel_task_state_returned:
  "cancel_task tid s = Some (b, s') \<Longrightarrow> cancel_task_state tid s = s'"
  by (auto simp: cancel_task_def cancel_task_state_def cancel_state_returned
      split: option.splits if_splits)

lemma cancel_task_queues:
  "cancel_task tid s = Some (b, s') \<Longrightarrow> task_queues s' = task_queues s \<and> submitted s' = submitted s
     \<and> completed_tasks s' = completed_tasks s \<and> max_workers s' = max_workers s \<and> executor_shutdown s' = executor_shutdown s"
  by (auto simp: cancel_task_def split: if_splits option.splits)

lemma dependencies_completed_update:
  assumes "map_of (tasks s) tid = Some t" and "status t' = status t"
  shows "dependencies_completed (s\<lparr>tasks := AList.update tid t' (tasks s)\<rparr>) x
     = dependencies_completed s x"
proof -
  have "(case map_of (AList.update tid t' (tasks s)) d of
           Some dep_task \<Rightarrow> status dep_task = COMPLETED
         | None \<Rightarrow> map_of (completed_tasks s) d \<noteq> None)
      = (case map_of (tasks s) d of
           Some dep_task \<Rightarrow> status dep_task = COMPLETED
         | None \<Rightarrow> map_of (completed_tasks s) d \<noteq> None)" for d
    using assms by (cases "d = tid") (simp_all add: update_conv')
  then show ?thesis by (simp add: dependencies_completed_def cong: option.case_cong)
qed


lemmas sched_eval = process_priority_queue.simps get_nowait_def put_def dependencies_completed_def
  add_task_def missing_dependency_def new_scheduler_def result_of_def new_task_def Let_def

text \<open>After the first sweep the fresh task has been submitted, and the task that depends
  on it is back on the queue with the new timestamp.\<close>

lemma first_sweep_state:
  "submitted first_sweep = [''t1''] \<and> task_queues first_sweep NORMAL = [(2, 3, ''y'')]
   \<and> running_tasks first_sweep = [(''t1'', FPending)]
   \<and> tasks first_sweep = [(''t1'', fresh_task), (''y'', dependent_task)]
   \<and> completed_tasks first_sweep = [] \<and> max_workers first_sweep = 4
   \<and> \<not> executor_shutdown first_sweep
   \<and> stats first_sweep = \<lparr> total_tasks = 2, stat_completed_tasks = 0, failed_tasks = 0,
                 cancelled_tasks = 0, average_execution_time = 0 \<rparr>"
  by (simp add: first_sweep_def submitted_pair_def dependent_task_def fresh_task_def sched_eval)

text \<open>
  C5. A task with a dependency whose status is not COMPLETED should never be dispatched.
  On the code, task \<open>y\<close> depends on task \<open>t1\<close>. While \<open>t1\<close> is unfinished, \<open>y\<close> is put back
  on its queue. Then \<open>t1\<close> fails and its result moves to \<open>completed_tasks\<close>; the dependency
  check looks at the status only of a dependency that is still in \<open>tasks\<close>, so \<open>y\<close> passes
  it at the next sweep and is submitted to a worker.
\<close>

theorem failed_dependency_dispatched:
  "submitted first_sweep = [''t1'']
   \<and> task_queues first_sweep NORMAL = [(2, 3, ''y'')]
   \<and> (case execute_task fresh_task failing_work 10 20 first_sweep of
         None \<Rightarrow> False
       | Some (result, task', s) \<Rightarrow>
           r_status result = FAILED
           \<and> map_option r_status (map_of (completed_tasks s) ''t1'') = Some FAILED
           \<and> map_option dependencies (map_of (tasks s) ''y'') = Some [''t1'']
           \<and> submitted (process_priority_queue NORMAL 4 s) = [''t1'', ''y''])"
  using first_sweep_state
  by (simp add: dependent_task_def fresh_task_def sched_eval
      execute_task_def record_result_def count_result_def update_average_def
      run_def run_try_def execute_with_timeout_def guard_loop.simps is_alive_def is_set_def
      task_defs error_msg_def failing_work_def)

text \<open>
  C6, as stated: the fresh task is PENDING, enqueued and not dispatched. \<^verbatim>\<open>cancel_task\<close>
  never returns on it; in the state the call leaves behind, the queue entry of the task is
  where it was, and the next sweep of the dispatch loop submits the task to a worker.
\<close>

theorem cancel_task_pending_counterexample:
  "map_of (tasks pending_scheduler) ''t1'' = Some fresh_task
   \<and> status fresh_task = PENDING
   \<and> task_queues pending_scheduler NORMAL = [(2, 1, ''t1'')]
   \<and> map_of (running_tasks pending_scheduler) ''t1'' = None
   \<and> cancel_task ''t1'' pending_scheduler = None
   \<and> task_queues (cancel_task_state ''t1'' pending_scheduler) NORMAL = [(2, 1, ''t1'')]
   \<and> submitted (cancel_task_state ''t1'' pending_scheduler) = []
   \<and> submitted (process_priority_queue NORMAL 5 (cancel_task_state ''t1'' pending_scheduler))
       = [''t1'']"
  by (simp add: pending_scheduler_def fresh_task_def sched_eval cancel_task_def cancel_def
      cancel_task_state_def cancel_state_def acquire_def release_def set_status_def)

text \<open>
  C6, amended: for every task that is PENDING, registered, enqueued and not yet dispatched,
  \<^verbatim>\<open>cancel_task\<close> on its id does not remove it from its priority queue: in the state the
  call leaves behind the queues are as before and the task is still registered; the
  dispatch loop, popping the entry with the task's dependencies satisfied, a worker free
  and the executor open, submits the task to a worker.
\<close>

theorem cancel_task_keeps_pending_entry:
  assumes "map_of (tasks s) tid = Some task"
    and "status task = PENDING"
    and "map_of (running_tasks s) tid = None"
    and "get_nowait (task_queues s pr) = Some ((p, ts, tid), q')"
    and "dependencies_completed s task"
    and "length (running_tasks s) < max_workers s"
    and "\<not> executor_shutdown s"
  shows "task_queues (cancel_task_state tid s) = task_queues s
     \<and> map fst (tasks (cancel_task_state tid s)) = map fst (tasks s)
     \<and> tid \<in> set (submitted (process_priority_queue pr now (cancel_task_state tid s)))"
proof -
  let ?s' = "cancel_task_state tid s"
  have s': "?s' = s\<lparr>tasks := AList.update tid (cancel_state task) (tasks s)\<rparr>"
    using assms(1,3) by (simp add: cancel_task_state_def)
  have m: "map_of (tasks ?s') tid = Some (cancel_state task)"
    by (simp add: s' update_conv')
  from assms(1) have "tid \<in> fst ` set (tasks s)"
    by (metis domI dom_map_of_conv_image_fst)
  then have k: "map fst (tasks ?s') = map fst (tasks s)"
    by (simp add: s' update_keys)
  have d: "dependencies_completed ?s' (cancel_state task)"
    using dependencies_completed_update [OF assms(1), of "cancel_state task" "cancel_state task"]
      assms(5) cancel_state_fields [of task]
    by (simp add: s' dependencies_completed_def)
  have "snd (snd (p, ts, tid)) \<in> set (submitted (process_priority_queue pr now ?s'))"
    using assms(4,6,7) m d
    by (intro popped_task_submitted [where q' = q' and task = "cancel_state task"])
      (simp_all add: s')
  then show ?thesis using k by (simp add: s')
qed

theorem cancel_task_keeps_pending_entry_witness:
  "map_of (tasks pending_scheduler) ''t1'' = Some fresh_task
   \<and> status fresh_task = PENDING
   \<and> map_of (running_tasks pending_scheduler) ''t1'' = None
   \<and> get_nowait (task_queues pending_scheduler NORMAL) = Some ((2, 1, ''t1''), [])
   \<and> dependencies_completed pending_scheduler fresh_task
   \<and> length (running_tasks pending_scheduler) < max_workers pending_scheduler
   \<and> \<not> executor_shutdown pending_scheduler
   \<and> task_queues (cancel_task_state ''t1'' pending_scheduler) = task_queues pending_scheduler
   \<and> map fst (tasks (cancel_task_state ''t1'' pending_scheduler)) = [''t1'']
   \<and> ''t1'' \<in> set (submitted (process_priority_queue NORMAL 5 (cancel_task_state ''t1'' pending_scheduler)))"
proof -
  have h: "map_of (tasks pending_scheduler) ''t1'' = Some fresh_task"
    "status fresh_task = PENDING"
    "map_of (running_tasks pending_scheduler) ''t1'' = None"
    "get_nowait (task_queues pending_scheduler NORMAL) = Some ((2, 1, ''t1''), [])"
    "dependencies_completed pending_scheduler fresh_task"
    "length (running_tasks pending_scheduler) < max_workers pending_scheduler"
    "\<not> executor_shutdown pending_scheduler"
    by (simp_all add: pending_scheduler_def fresh_task_def sched_eval)
  have k: "map fst (tasks pending_scheduler) = [''t1'']"
    by (simp add: pending_scheduler_def fresh_task_def sched_eval)
  from cancel_task_keeps_pending_entry [OF h, of 5] h k show ?thesis by simp
qed

subsection \<open>Statistics\<close>




lemma new_task_not_completed: "status (new_task tid nm pr tmo deps) \<noteq> COMPLETED"
  by (simp add: new_task_def)

lemma cancel_never_completed:
  "status t \<noteq> COMPLETED \<Longrightarrow> cancel t = Some t' \<Longrightarrow> status t' \<noteq> COMPLETED"
  by (auto simp: cancel_def acquire_def release_def set_status_def split: if_splits)

lemma pause_never_completed:
  "status t \<noteq> COMPLETED \<Longrightarrow> pause t = Some t' \<Longrightarrow> status t' \<noteq> COMPLETED"
  by (auto simp: pause_def acquire_def release_def set_status_def split: if_splits)

lemma resume_never_completed:
  "status t \<noteq> COMPLETED \<Longrightarrow> resume t = Some t' \<Longrightarrow> status t' \<noteq> COMPLETED"
  by (auto simp: resume_def acquire_def release_def set_status_def split: if_splits)

text \<open>A new scheduler has counted no task and has the average \<open>0\<close>; submission,
  cancellation, cleanup and dispatch leave the completed counter and the average as they
  are.\<close>

lemma new_scheduler_stats:
  "stat_completed_tasks (stats (new_scheduler n)) = 0
   \<and> average_execution_time (stats (new_scheduler n)) = 0"
  by (simp add: new_scheduler_def)

lemma add_task_stats:
  "stat_completed_tasks (stats (snd (add_task t ts s))) = stat_completed_tasks (stats s)
   \<and> average_execution_time (stats (snd (add_task t ts s))) = average_execution_time (stats s)"
  by (simp add: add_task_def Let_def split: option.splits)

lemma cancel_task_stats: "cancel_task tid s = Some (b, s') \<Longrightarrow> stats s' = stats s"
  by (auto simp: cancel_task_def split: if_splits option.splits)

lemma cleanup_stats: "stats (cleanup_completed_tasks cap s) = stats s"
  by (simp add: cleanup_completed_tasks_def)

lemma process_priority_queue_stats: "stats (process_priority_queue pr now s) = stats s"
proof (induction pr now s rule: process_priority_queue.induct)
  case (1 pr now s)
  show ?case
  proof (cases "task_queues s pr \<noteq> [] \<and> length (running_tasks s) < max_workers s")
    case False
    then show ?thesis by (subst process_priority_queue.simps) auto
  next
    case True
    show ?thesis
    proof (cases "get_nowait (task_queues s pr)")
      case None
      with True show ?thesis by (subst process_priority_queue.simps) simp
    next
      case (Some x2)
      obtain e q' where x2: "x2 = (e, q')" by (cases x2)
      let ?tid = "snd (snd e)"
      let ?s1 = "s\<lparr>task_queues := (task_queues s)(pr := q')\<rparr>"
      show ?thesis
      proof (cases "map_of (tasks ?s1) ?tid")
        case None
        from "1.IH"(1) [OF True Some x2 [symmetric] refl refl None]
        have "stats (process_priority_queue pr now ?s1) = stats ?s1" .
        with True Some x2 None show ?thesis
          by (subst process_priority_queue.simps) (simp add: Let_def)
      next
        case m: (Some task)
        show ?thesis
        proof (cases "dependencies_completed ?s1 task")
          case False
          with True Some x2 m show ?thesis
            by (subst process_priority_queue.simps) (simp add: Let_def)
        next
          case dc: True
          then have nn: "\<not> \<not> dependencies_completed ?s1 task" by simp
          show ?thesis
          proof (cases "executor_shutdown ?s1")
            case sh: True
            from "1.IH"(2) [OF True Some x2 [symmetric] refl refl m nn sh]
            have "stats (process_priority_queue pr now ?s1) = stats ?s1" .
            with True Some x2 m dc sh show ?thesis
              by (subst process_priority_queue.simps) (simp add: Let_def)
          next
            case sh: False
            let ?s2 = "?s1\<lparr>submitted := submitted ?s1 @ [?tid],
                running_tasks := AList.update ?tid FPending (running_tasks ?s1)\<rparr>"
            from "1.IH"(3) [OF True Some x2 [symmetric] refl refl m nn sh]
            have "stats (process_priority_queue pr now ?s2) = stats ?s2" .
            with True Some x2 m dc sh show ?thesis
              by (subst process_priority_queue.simps) (simp add: Let_def)
          qed
        qed
      qed
    qed
  qed
qed







subsection \<open>Queries\<close>













end
